theory Spec2Isabelle
  imports Main "HOL-Library.Word" "HOL-Library.AList" "HOL-Library.Multiset"
begin

unbundle bit_operations_syntax

section \<open>Data model\<close>

text \<open>
  Go's \<open>net.IP\<close> and \<open>net.IPMask\<close> are byte slices, \<open>net.IPNet\<close> is a struct of
  the two. A panic is a value of the type \<open>error\<close>.
\<close>

type_synonym byte = "8 word"
type_synonym uint32 = "32 word"

datatype error = Panic string

record IPNet =
  IP :: "byte list"
  Mask :: "byte list"

subsection \<open>The standard library functions the code calls\<close>

text \<open>
  \<open>net.IP.To4\<close>: a 4-byte address is returned as it is, a 16-byte address with the
  prefix \<open>0:0:0:0:0:ffff\<close> yields its last four bytes, everything else is \<open>nil\<close>.
\<close>

definition To4 :: "byte list \<Rightarrow> byte list option" where
  "To4 ip =
     (if length ip = 4 then Some ip
      else if length ip = 16 \<and> list_all (\<lambda>b. b = 0) (take 10 ip)
              \<and> ip ! 10 = 0xff \<and> ip ! 11 = 0xff then Some (drop 12 ip)
      else None)"

text \<open>
  \<open>net.IPMask.Size\<close> through \<open>simpleMaskLength\<close>: the number of leading one bits
  when the mask is a run of ones followed by zeros, and \<open>(0, 0)\<close> otherwise.
  \<open>leading_ones\<close> is the inner loop \<open>for v&0x80 != 0 { n++; v <<= 1 }\<close>.
\<close>

function leading_ones :: "int \<Rightarrow> byte \<Rightarrow> int \<times> byte" where
  "leading_ones n v =
     (if v AND 0x80 \<noteq> 0 then leading_ones (n + 1) (push_bit 1 v) else (n, v))"
  by pat_completeness auto
termination
proof (relation "measure (\<lambda>(n, v). unat v)")
  show "wf (measure (\<lambda>(n, v). unat v))" by simp
next
  fix n :: int and v :: byte
  assume a: "v AND 0x80 \<noteq> 0"
  have "(0x80::byte) = 2 ^ 7" by simp
  with a have "bit v 7" by (simp only: and_exp_eq_0_iff_not_bit) simp
  then have "bit (unat v) 7" by (simp add: bit_unsigned_iff)
  then have "odd (unat v div 128)" by (simp add: bit_iff_odd)
  then have "unat v div 128 \<noteq> 0" by (intro notI) simp
  then have lo: "128 \<le> unat v" by simp
  have hi: "unat v < 256" using unsigned_less [of v, where 'a = nat] by simp
  have "unat (push_bit 1 v) = (2 * unat v) mod 256"
    by (simp add: unat_word_ariths push_bit_eq_mult mult.commute)
  with lo hi have "unat (push_bit 1 v) < unat v" by (simp add: mod_if) arith
  then show "((n + 1, push_bit 1 v), (n, v)) \<in> measure (\<lambda>(n, v). unat v)" by simp
qed

fun simpleMaskLength :: "int \<Rightarrow> byte list \<Rightarrow> int" where
  "simpleMaskLength n [] = n"
| "simpleMaskLength n (v # rest) =
     (if v = 0xff then simpleMaskLength (n + 8) rest
      else (case leading_ones n v of (n', v') \<Rightarrow>
              if v' \<noteq> 0 then - 1
              else if list_ex (\<lambda>b. b \<noteq> 0) rest then - 1
              else n'))"

definition Size :: "byte list \<Rightarrow> int \<times> int" where
  "Size m = (let ones = simpleMaskLength 0 m; bits = int (length m) * 8
             in if ones = - 1 then (0, 0) else (ones, bits))"

text \<open>\<open>net.CIDRMask\<close>; the \<open>nil\<close> mask is the empty list.\<close>

fun CIDRMask_bytes :: "nat \<Rightarrow> nat \<Rightarrow> byte list" where
  "CIDRMask_bytes 0 n = []"
| "CIDRMask_bytes (Suc l) n =
     (if n \<ge> 8 then 0xff # CIDRMask_bytes l (n - 8)
      else NOT (drop_bit n 0xff) # CIDRMask_bytes l 0)"

definition CIDRMask :: "int \<Rightarrow> int \<Rightarrow> byte list" where
  "CIDRMask ones bits =
     (if bits \<noteq> 32 \<and> bits \<noteq> 128 then []
      else if ones < 0 \<or> ones > bits then []
      else CIDRMask_bytes (nat (bits div 8)) (nat ones))"

subsection \<open>The 128-bit integer and the byte conversions\<close>

text \<open>
  Modelled from the spec: the type \<open>uint128\<close> and its methods are not among the source
  files. The spec describes an immutable 128-bit unsigned value kept as a high and a low
  64-bit half, whose operations are bitwise AND, OR and NOT, a logical left shift that
  carries from the low into the high half, a subtraction that borrows across the halves
  and a comparison with the high half as primary key; every operation returns a new value
  and leaves its operands alone. That is the arithmetic of a 128-bit word, the literal
  \<open>uint128{0, 1}\<close> being the number 1. In \<open>ip6Net.super\<close> and \<open>ip6Net.mask\<close> the
  methods \<open>Lsh\<close>, \<open>Minus\<close> and \<open>Not\<close> are called on composite literals and on call
  results, which Go allows for value receivers only, so a call cannot change its receiver.
\<close>

type_synonym uint128 = "128 word"

definition uint128_And :: "uint128 \<Rightarrow> uint128 \<Rightarrow> uint128" where
  "uint128_And u other = u AND other"

definition uint128_Or :: "uint128 \<Rightarrow> uint128 \<Rightarrow> uint128" where
  "uint128_Or u other = u OR other"

definition uint128_Not :: "uint128 \<Rightarrow> uint128" where
  "uint128_Not u = NOT u"

definition uint128_Lsh :: "uint128 \<Rightarrow> nat \<Rightarrow> uint128" where
  "uint128_Lsh u k = push_bit k u"

definition uint128_Minus :: "uint128 \<Rightarrow> uint128 \<Rightarrow> uint128" where
  "uint128_Minus u other = u - other"

definition uint128_Cmp :: "uint128 \<Rightarrow> uint128 \<Rightarrow> int" where
  "uint128_Cmp u other = (if u < other then - 1 else if u = other then 0 else 1)"

text \<open>
  Modelled from the spec: \<open>to32\<close>, \<open>from32\<close>, \<open>to128\<close> and \<open>from128\<close> are not
  among the source files. The spec fixes a big-endian byte layout at the natural width of
  the address family, 4 bytes for IPv4 and 16 for IPv6. \<open>to32\<close> reads the last four
  bytes of its argument and \<open>from32\<close> writes the last four bytes of its destination, which
  is that layout on a 4-byte slice; likewise with 16 bytes for \<open>to128\<close> and
  \<open>from128\<close>. On a slice of another length the spec fixes nothing; only the
  example of the 16-byte IPv4-mapped address under Claim C9 reads such a slice, and what
  it shows, that no panic is raised, does not depend on the bytes read.
\<close>

definition be_word :: "byte list \<Rightarrow> 'a::len word" where
  "be_word bs = foldl (\<lambda>acc b. push_bit 8 acc OR ucast b) 0 bs"

definition be_bytes :: "nat \<Rightarrow> 'a::len word \<Rightarrow> byte list" where
  "be_bytes k w = map (\<lambda>i. ucast (drop_bit (8 * i) w)) (rev [0..<k])"

definition to32 :: "byte list \<Rightarrow> uint32" where
  "to32 ip = be_word (drop (length ip - 4) ip)"

definition from32 :: "uint32 \<Rightarrow> byte list \<Rightarrow> byte list" where
  "from32 n dst = take (length dst - 4) dst @ be_bytes 4 n"

definition to128 :: "byte list \<Rightarrow> uint128" where
  "to128 ip = be_word (drop (length ip - 16) ip)"

definition from128 :: "uint128 \<Rightarrow> byte list \<Rightarrow> byte list" where
  "from128 n dst = take (length dst - 16) dst @ be_bytes 16 n"

section \<open>Typed networks\<close>

text \<open>
  \<open>ip4Net\<close> and \<open>ip6Net\<close>: an address of 32 or 128 bits and a prefix length of
  type \<open>uint8\<close>.
\<close>

record (overloaded) ('a::len) ipNet =
  addr :: "'a word"
  prefix :: "8 word"

type_synonym ip4Net = "32 ipNet"
type_synonym ip6Net = "128 ipNet"

definition newIP4Net :: "IPNet \<Rightarrow> ip4Net" where
  "newIP4Net ipN = (case Size (Mask ipN) of (ones, bits) \<Rightarrow>
     \<lparr>addr = to32 (IP ipN), prefix = word_of_int ones\<rparr>)"

text \<open>
  \<open>n.addr &^= 1 << (32 - n.prefix); n.prefix--\<close>. The shift count is computed in
  \<open>uint8\<close>, the shifted 1 is a \<open>uint32\<close>, and a count of 32 or more gives 0.
\<close>

definition super4 :: "ip4Net \<Rightarrow> ip4Net" where
  "super4 n = n\<lparr>addr := addr n AND NOT (push_bit (unat (32 - prefix n)) 1),
               prefix := prefix n - 1\<rparr>"

definition mask4 :: "ip4Net \<Rightarrow> uint32" where
  "mask4 n = NOT (push_bit (unat (32 - prefix n)) 1 - 1)"

definition asNet4 :: "ip4Net \<Rightarrow> IPNet" where
  "asNet4 n = \<lparr>IP = from32 (addr n) (replicate 4 0), Mask = from32 (mask4 n) (replicate 4 0)\<rparr>"

definition Less4 :: "ip4Net \<Rightarrow> ip4Net \<Rightarrow> bool" where
  "Less4 a b = (addr a < addr b)"

definition newIP6Net :: "IPNet \<Rightarrow> ip6Net" where
  "newIP6Net ipN = (case Size (Mask ipN) of (ones, bits) \<Rightarrow>
     \<lparr>addr = to128 (IP ipN), prefix = word_of_int ones\<rparr>)"

text \<open>
  In \<open>ip6Net\<close> the shift count is \<open>128 - uint(n.prefix)\<close>, computed in the 64-bit
  type \<open>uint\<close>.
\<close>

definition super6 :: "ip6Net \<Rightarrow> ip6Net" where
  "super6 n =
     n\<lparr>addr := uint128_And (addr n)
                 (uint128_Not (uint128_Lsh 1 (unat (128 - ucast (prefix n) :: 64 word)))),
       prefix := prefix n - 1\<rparr>"

definition mask6 :: "ip6Net \<Rightarrow> uint128" where
  "mask6 n = uint128_Not
     (uint128_Minus (uint128_Lsh 1 (unat (128 - ucast (prefix n) :: 64 word))) 1)"

definition asNet6 :: "ip6Net \<Rightarrow> IPNet" where
  "asNet6 n =
     \<lparr>IP = from128 (addr n) (replicate 16 0), Mask = from128 (mask6 n) (replicate 16 0)\<rparr>"

definition Less6 :: "ip6Net \<Rightarrow> ip6Net \<Rightarrow> bool" where
  "Less6 a b = (uint128_Cmp (addr a) (addr b) = - 1)"

section \<open>The collapse engine\<close>

text \<open>
  \<open>collapse4\<close> and \<open>collapse6\<close> run the same loop over their own network type, so
  the loop takes the parent function as an argument. The work stack \<open>nets\<close> is a list
  with its top first: the source pops the last element of the slice, so the loop starts
  from the reversed input. The map \<open>supers\<close> is an association list from a parent to
  the network that claims it.
\<close>

function collapse_loop :: "('n \<Rightarrow> 'n) \<Rightarrow> 'n list \<Rightarrow> ('n \<times> 'n) list \<Rightarrow> ('n \<times> 'n) list" where
  "collapse_loop par [] supers = supers"
| "collapse_loop par (n # nets) supers =
     (let s = par n in
      case map_of supers s of
        None \<Rightarrow> collapse_loop par nets (AList.update s n supers)
      | Some other \<Rightarrow>
          if other = n then collapse_loop par nets supers
          else collapse_loop par (s # nets) (AList.delete s supers))"
  by pat_completeness auto
termination
proof (relation "measure (\<lambda>(par, nets, supers). 2 * length nets + length supers)")
  show "wf (measure (\<lambda>(par, nets, supers). 2 * length nets + length supers))" by simp
next
  fix par :: "'n \<Rightarrow> 'n" and n nets and supers :: "('n \<times> 'n) list" and s
  assume "s = par n" "map_of supers s = None"
  then have "map fst (AList.update s n supers) = map fst supers @ [s]"
    by (simp add: update_keys map_of_eq_None_iff)
  then have "length (AList.update s n supers) = Suc (length supers)"
    by (metis length_append_singleton length_map)
  then show "((par, nets, AList.update s n supers), (par, n # nets, supers))
      \<in> measure (\<lambda>(par, nets, supers). 2 * length nets + length supers)" by simp
next
  fix par :: "'n \<Rightarrow> 'n" and n nets and supers :: "('n \<times> 'n) list" and s other
  show "((par, nets, supers), (par, n # nets, supers))
      \<in> measure (\<lambda>(par, nets, supers). 2 * length nets + length supers)" by simp
next
  fix par :: "'n \<Rightarrow> 'n" and n nets and supers :: "('n \<times> 'n) list" and s other
  assume "map_of supers s = Some other"
  then have "s \<in> fst ` set supers" by (metis map_of_eq_None_iff option.distinct(1))
  then have "length (AList.delete s supers) < length supers"
    by (induction supers) (force simp: less_Suc_eq_le length_delete_le)+
  then show "((par, s # nets, AList.delete s supers), (par, n # nets, supers))
      \<in> measure (\<lambda>(par, nets, supers). 2 * length nets + length supers)" by simp
qed

text \<open>
  Go does not specify the order in which \<open>range\<close> visits a map, and it changes from
  run to run. The number \<open>r\<close> stands for that choice: \<open>permute r\<close> is a rearrangement
  of the list, \<open>permute 0\<close> leaves it as it is, and \<open>range_values r supers\<close> are the
  values of the map in the order the run visits them.
\<close>

fun permute :: "nat \<Rightarrow> 'a list \<Rightarrow> 'a list" where
  "permute r [] = []"
| "permute r (x # xs) =
     (let k = r mod (length xs + 1); ys = permute (r div (length xs + 1)) xs
      in take k ys @ x # drop k ys)"

definition range_values :: "nat \<Rightarrow> ('n \<times> 'n) list \<Rightarrow> 'n list" where
  "range_values r supers = permute r (map snd supers)"

text \<open>
  \<open>sort.Sort\<close> with the \<open>Less\<close> of the slice type. The library promises a sorted
  rearrangement and no more (the sort is not stable); the model sorts by insertion, which
  keeps elements that \<open>Less\<close> does not separate in the order of its input, so that every
  outcome of an unspecified map order followed by an unstable sort is the outcome of some
  \<open>r\<close>.
\<close>

fun insort_by :: "('n \<Rightarrow> 'n \<Rightarrow> bool) \<Rightarrow> 'n \<Rightarrow> 'n list \<Rightarrow> 'n list" where
  "insort_by lt x [] = [x]"
| "insort_by lt x (y # ys) =
     (if lt y x then y # insort_by lt x ys else x # y # ys)"

definition Sort :: "('n \<Rightarrow> 'n \<Rightarrow> bool) \<Rightarrow> 'n list \<Rightarrow> 'n list" where
  "Sort lt xs = foldr (insort_by lt) xs []"

text \<open>
  The final pass over \<open>merged[1:]\<close>: an entry whose address under the mask of the last
  kept entry is the address of that entry is skipped.
\<close>

fun coalesce :: "('a::len ipNet \<Rightarrow> 'a word) \<Rightarrow> 'a word \<Rightarrow> 'a word \<Rightarrow> 'a ipNet list \<Rightarrow> 'a ipNet list" where
  "coalesce msk lastMask lastAddr [] = []"
| "coalesce msk lastMask lastAddr (m # ms) =
     (if lastAddr = addr m AND lastMask then coalesce msk lastMask lastAddr ms
      else m # coalesce msk (msk m) (addr m) ms)"

text \<open>
  The networks that survive, before they are rendered: \<open>merged[0]\<close> and what the final
  pass keeps. \<open>merged[0]\<close> of an empty slice is a panic.
\<close>

definition survivors :: "('a::len ipNet \<Rightarrow> 'a word) \<Rightarrow> 'a ipNet list \<Rightarrow> error + 'a ipNet list" where
  "survivors msk merged =
     (case merged of
        [] \<Rightarrow> Inl (Panic ''index out of range'')
      | m0 # rest \<Rightarrow> Inr (m0 # coalesce msk (msk m0) (addr m0) rest))"

definition merged4 :: "nat \<Rightarrow> ip4Net list \<Rightarrow> ip4Net list" where
  "merged4 r nets = Sort Less4 (range_values r (collapse_loop super4 (rev nets) []))"

definition collapse4 :: "nat \<Rightarrow> IPNet list \<Rightarrow> error + IPNet list" where
  "collapse4 r toMerge =
     (case survivors mask4 (merged4 r (map newIP4Net toMerge)) of
        Inl e \<Rightarrow> Inl e
      | Inr ns \<Rightarrow> Inr (map asNet4 ns))"

definition merged6 :: "nat \<Rightarrow> ip6Net list \<Rightarrow> ip6Net list" where
  "merged6 r nets = Sort Less6 (range_values r (collapse_loop super6 (rev nets) []))"

definition collapse6 :: "nat \<Rightarrow> IPNet list \<Rightarrow> error + IPNet list" where
  "collapse6 r toMerge =
     (case survivors mask6 (merged6 r (map newIP6Net toMerge)) of
        Inl e \<Rightarrow> Inl e
      | Inr ns \<Rightarrow> Inr (map asNet6 ns))"

definition Collapse :: "nat \<Rightarrow> IPNet list \<Rightarrow> error + IPNet list" where
  "Collapse r toMerge =
     (if length toMerge = 0 then Inr []
      else
        let four = (To4 (IP (hd toMerge)) \<noteq> None) in
        if list_ex (\<lambda>ipN. four \<noteq> (To4 (IP ipN) \<noteq> None)) (tl toMerge)
        then Inl (Panic ''all versions must be the same'')
        else if four then collapse4 r toMerge
        else collapse6 r toMerge)"

section \<open>Supernet and Broadcast\<close>

text \<open>
  In the IPv6 branch of \<open>Supernet\<close> the results of \<open>mask.Lsh\<close>, \<open>mask.Minus\<close> and
  \<open>ip.And\<close> are dropped, so \<open>mask\<close> and \<open>ip\<close> keep their values; the bindings to
  \<open>d1\<close> to \<open>d4\<close> are those dropped results.
\<close>

definition Supernet :: "IPNet \<Rightarrow> int \<Rightarrow> error + IPNet" where
  "Supernet ipN newPrefix =
     (case Size (Mask ipN) of (ones, bits) \<Rightarrow>
        if newPrefix < 0 \<or> newPrefix > ones \<or> newPrefix > bits
        then Inl (Panic ''new prefix must be less than current'')
        else
          let out_IP = replicate (length (IP ipN)) 0;
              out_Mask = CIDRMask newPrefix bits
          in if To4 (IP ipN) \<noteq> None then
               let ip = to32 (IP ipN);
                   ip = ip AND push_bit (nat (bits - newPrefix)) (push_bit (nat newPrefix) 1 - 1)
               in Inr \<lparr>IP = from32 ip out_IP, Mask = out_Mask\<rparr>
             else
               let ip = to128 (IP ipN);
                   mask = (1 :: uint128);
                   d1 = uint128_Lsh mask (nat newPrefix);
                   d2 = uint128_Minus mask 1;
                   d3 = uint128_Lsh mask (nat (bits - newPrefix));
                   d4 = uint128_And ip mask
               in Inr \<lparr>IP = from128 ip out_IP, Mask = out_Mask\<rparr>)"

text \<open>
  \<open>Broadcast\<close> copies the address into \<open>out\<close> and writes the result over it. In its
  IPv6 branch the results of \<open>hostMask.Lsh\<close>, \<open>hostMask.Minus\<close> and \<open>ip.Or\<close> are
  dropped in the same way.
\<close>

definition Broadcast :: "IPNet \<Rightarrow> byte list" where
  "Broadcast a =
     (let out = IP a in
      case Size (Mask a) of (ones, bits) \<Rightarrow>
        if To4 (IP a) \<noteq> None then
          let ip = to32 (IP a);
              ip = ip OR (push_bit (nat (bits - ones)) 1 - 1)
          in from32 ip out
        else
          let ip = to128 (IP a);
              hostMask = (1 :: uint128);
              d1 = uint128_Lsh hostMask (nat (bits - ones));
              d2 = uint128_Minus hostMask 1;
              d3 = uint128_Or ip hostMask
          in from128 ip out)"

section \<open>Notions used to state the properties\<close>

text \<open>
  The shift counts of \<open>super\<close> and \<open>mask\<close>: the number of host bits, computed as the
  source computes it.
\<close>

definition shift4 :: "8 word \<Rightarrow> nat" where
  "shift4 p = unat (32 - p)"

definition shift6 :: "8 word \<Rightarrow> nat" where
  "shift6 p = unat (128 - ucast p :: 64 word)"

text \<open>
  A typed network is masked when its address has no bit set beyond its prefix length:
  the address under the network's own mask is the address.
\<close>

definition masked4 :: "ip4Net \<Rightarrow> bool" where
  "masked4 n = (addr n AND mask4 n = addr n)"

definition masked6 :: "ip6Net \<Rightarrow> bool" where
  "masked6 n = (uint128_And (addr n) (mask6 n) = addr n)"

text \<open>
  The address \<open>a\<close> lies in the network \<open>n\<close>, as \<open>net.IPNet.Contains\<close> decides it:
  address and network agree under the mask of the network.
\<close>

definition covers4 :: "ip4Net \<Rightarrow> uint32 \<Rightarrow> bool" where
  "covers4 n a = (a AND mask4 n = addr n AND mask4 n)"

definition covers6 :: "ip6Net \<Rightarrow> uint128 \<Rightarrow> bool" where
  "covers6 n a = (uint128_And a (mask6 n) = uint128_And (addr n) (mask6 n))"



text \<open>
  The 16-byte form \<open>::ffff:a.b.c.d\<close> of an IPv4 address, the form that \<open>To4\<close>
  accepts besides the 4-byte one.
\<close>

definition ipv4_mapped :: "byte list \<Rightarrow> bool" where
  "ipv4_mapped ip \<longleftrightarrow>
     length ip = 16 \<and> list_all (\<lambda>b. b = 0) (take 10 ip) \<and> ip ! 10 = 0xff \<and> ip ! 11 = 0xff"

section \<open>The functions on a store\<close>

text \<open>
  The memory the functions work on: the backing arrays of byte slices and the
  \<open>net.IPNet\<close> structs, each at an address, and the next address that an allocation
  hands out. A slice is the address of its array; a struct holds the slices of its two
  fields.
\<close>

record netref =
  IP_ref :: nat
  Mask_ref :: nat

record store =
  arrays :: "nat \<rightharpoonup> byte list"
  structs :: "nat \<rightharpoonup> netref"
  next_free :: nat

text \<open>Nothing lives at an address that has not been handed out yet.\<close>

definition wf_store :: "store \<Rightarrow> bool" where
  "wf_store s \<longleftrightarrow> (\<forall>p. next_free s \<le> p \<longrightarrow> arrays s p = None \<and> structs s p = None)"

text \<open>
  \<open>make\<close> and the composite literals allocate at the next free address; \<open>copy\<close>
  and the conversions \<open>from32\<close> and \<open>from128\<close> write into the array of their
  destination slice; \<open>deref\<close> reads the struct behind a pointer with the contents of
  both slices and has no value for a pointer to nothing.
\<close>

definition new_bytes :: "byte list \<Rightarrow> store \<Rightarrow> nat \<times> store" where
  "new_bytes bs s =
     (next_free s, s\<lparr>arrays := (arrays s)(next_free s \<mapsto> bs), next_free := Suc (next_free s)\<rparr>)"

definition make_bytes :: "nat \<Rightarrow> store \<Rightarrow> nat \<times> store" where
  "make_bytes n s = new_bytes (replicate n 0) s"

definition new_IPNet :: "netref \<Rightarrow> store \<Rightarrow> nat \<times> store" where
  "new_IPNet r s =
     (next_free s, s\<lparr>structs := (structs s)(next_free s \<mapsto> r), next_free := Suc (next_free s)\<rparr>)"

definition read_bytes :: "store \<Rightarrow> nat \<Rightarrow> byte list" where
  "read_bytes s p = (case arrays s p of None \<Rightarrow> [] | Some bs \<Rightarrow> bs)"

definition write_bytes :: "nat \<Rightarrow> byte list \<Rightarrow> store \<Rightarrow> store" where
  "write_bytes p bs s = s\<lparr>arrays := (arrays s)(p \<mapsto> bs)\<rparr>"

definition copy_bytes :: "byte list \<Rightarrow> byte list \<Rightarrow> byte list" where
  "copy_bytes dst src = take (length dst) src @ drop (length src) dst"

definition deref :: "store \<Rightarrow> nat \<Rightarrow> IPNet option" where
  "deref s p =
     (case structs s p of
        None \<Rightarrow> None
      | Some r \<Rightarrow>
          (case (arrays s (IP_ref r), arrays s (Mask_ref r)) of
             (Some ip, Some m) \<Rightarrow> Some \<lparr>IP = ip, Mask = m\<rparr>
           | _ \<Rightarrow> None))"

definition nil_panic :: error where
  "nil_panic = Panic ''invalid memory address or nil pointer dereference''"

text \<open>
  \<open>Broadcast\<close>, \<open>Supernet\<close> and \<open>Collapse\<close> once more, statement by statement
  on the store: the argument is a pointer, the result a pointer or a slice together with
  the store after the call.
\<close>

definition Broadcast_st :: "nat \<Rightarrow> store \<Rightarrow> (error + nat) \<times> store" where
  "Broadcast_st a s =
     (case deref s a of
        None \<Rightarrow> (Inl nil_panic, s)
      | Some v \<Rightarrow>
          (case make_bytes (length (IP v)) s of (out, s1) \<Rightarrow>
           let s2 = write_bytes out (copy_bytes (read_bytes s1 out) (IP v)) s1 in
           case Size (Mask v) of (ones, bits) \<Rightarrow>
             if To4 (IP v) \<noteq> None then
               let ip = to32 (IP v);
                   ip = ip OR (push_bit (nat (bits - ones)) 1 - 1)
               in (Inr out, write_bytes out (from32 ip (read_bytes s2 out)) s2)
             else
               let ip = to128 (IP v);
                   hostMask = (1 :: uint128);
                   d1 = uint128_Lsh hostMask (nat (bits - ones));
                   d2 = uint128_Minus hostMask 1;
                   d3 = uint128_Or ip hostMask
               in (Inr out, write_bytes out (from128 ip (read_bytes s2 out)) s2)))"

definition Supernet_st :: "nat \<Rightarrow> int \<Rightarrow> store \<Rightarrow> (error + nat) \<times> store" where
  "Supernet_st ipN newPrefix s =
     (case deref s ipN of
        None \<Rightarrow> (Inl nil_panic, s)
      | Some v \<Rightarrow>
          (case Size (Mask v) of (ones, bits) \<Rightarrow>
             if newPrefix < 0 \<or> newPrefix > ones \<or> newPrefix > bits
             then (Inl (Panic ''new prefix must be less than current''), s)
             else
               case make_bytes (length (IP v)) s of (out_IP, s1) \<Rightarrow>
               case new_bytes (CIDRMask newPrefix bits) s1 of (out_Mask, s2) \<Rightarrow>
               if To4 (IP v) \<noteq> None then
                 let ip = to32 (IP v);
                     ip = ip AND push_bit (nat (bits - newPrefix)) (push_bit (nat newPrefix) 1 - 1);
                     s3 = write_bytes out_IP (from32 ip (read_bytes s2 out_IP)) s2
                 in case new_IPNet \<lparr>IP_ref = out_IP, Mask_ref = out_Mask\<rparr> s3 of
                      (p, s4) \<Rightarrow> (Inr p, s4)
               else
                 let ip = to128 (IP v);
                     mask = (1 :: uint128);
                     d1 = uint128_Lsh mask (nat newPrefix);
                     d2 = uint128_Minus mask 1;
                     d3 = uint128_Lsh mask (nat (bits - newPrefix));
                     d4 = uint128_And ip mask;
                     s3 = write_bytes out_IP (from128 ip (read_bytes s2 out_IP)) s2
                 in case new_IPNet \<lparr>IP_ref = out_IP, Mask_ref = out_Mask\<rparr> s3 of
                      (p, s4) \<Rightarrow> (Inr p, s4)))"

definition asNet4_st :: "ip4Net \<Rightarrow> store \<Rightarrow> nat \<times> store" where
  "asNet4_st n s =
     (case make_bytes 4 s of (ip, s1) \<Rightarrow>
      case make_bytes 4 s1 of (m, s2) \<Rightarrow>
      let s3 = write_bytes ip (from32 (addr n) (read_bytes s2 ip)) s2;
          s4 = write_bytes m (from32 (mask4 n) (read_bytes s3 m)) s3
      in new_IPNet \<lparr>IP_ref = ip, Mask_ref = m\<rparr> s4)"

definition asNet6_st :: "ip6Net \<Rightarrow> store \<Rightarrow> nat \<times> store" where
  "asNet6_st n s =
     (case make_bytes 16 s of (ip, s1) \<Rightarrow>
      case make_bytes 16 s1 of (m, s2) \<Rightarrow>
      let s3 = write_bytes ip (from128 (addr n) (read_bytes s2 ip)) s2;
          s4 = write_bytes m (from128 (mask6 n) (read_bytes s3 m)) s3
      in new_IPNet \<lparr>IP_ref = ip, Mask_ref = m\<rparr> s4)"

fun render_all :: "('n \<Rightarrow> store \<Rightarrow> nat \<times> store) \<Rightarrow> 'n list \<Rightarrow> store \<Rightarrow> nat list \<times> store" where
  "render_all render [] s = ([], s)"
| "render_all render (n # ns) s =
     (case render n s of (p, s1) \<Rightarrow>
      case render_all render ns s1 of (ps, s2) \<Rightarrow> (p # ps, s2))"

fun load_all :: "store \<Rightarrow> nat list \<Rightarrow> error + IPNet list" where
  "load_all s [] = Inr []"
| "load_all s (p # ps) =
     (case deref s p of
        None \<Rightarrow> Inl nil_panic
      | Some v \<Rightarrow> (case load_all s ps of Inl e \<Rightarrow> Inl e | Inr vs \<Rightarrow> Inr (v # vs)))"

definition collapse4_st :: "nat \<Rightarrow> nat list \<Rightarrow> store \<Rightarrow> (error + nat list) \<times> store" where
  "collapse4_st r toMerge s =
     (case load_all s toMerge of
        Inl e \<Rightarrow> (Inl e, s)
      | Inr vs \<Rightarrow>
          (case survivors mask4 (merged4 r (map newIP4Net vs)) of
             Inl e \<Rightarrow> (Inl e, s)
           | Inr ns \<Rightarrow> (case render_all asNet4_st ns s of (ps, s1) \<Rightarrow> (Inr ps, s1))))"

definition collapse6_st :: "nat \<Rightarrow> nat list \<Rightarrow> store \<Rightarrow> (error + nat list) \<times> store" where
  "collapse6_st r toMerge s =
     (case load_all s toMerge of
        Inl e \<Rightarrow> (Inl e, s)
      | Inr vs \<Rightarrow>
          (case survivors mask6 (merged6 r (map newIP6Net vs)) of
             Inl e \<Rightarrow> (Inl e, s)
           | Inr ns \<Rightarrow> (case render_all asNet6_st ns s of (ps, s1) \<Rightarrow> (Inr ps, s1))))"

fun same_family :: "store \<Rightarrow> bool \<Rightarrow> nat list \<Rightarrow> error + unit" where
  "same_family s four [] = Inr ()"
| "same_family s four (p # ps) =
     (case deref s p of
        None \<Rightarrow> Inl nil_panic
      | Some v \<Rightarrow>
          if four \<noteq> (To4 (IP v) \<noteq> None) then Inl (Panic ''all versions must be the same'')
          else same_family s four ps)"

definition Collapse_st :: "nat \<Rightarrow> nat list \<Rightarrow> store \<Rightarrow> (error + nat list) \<times> store" where
  "Collapse_st r toMerge s =
     (if length toMerge = 0 then (Inr [], s)
      else
        case deref s (hd toMerge) of
          None \<Rightarrow> (Inl nil_panic, s)
        | Some v0 \<Rightarrow>
            let four = (To4 (IP v0) \<noteq> None) in
            case same_family s four (tl toMerge) of
              Inl e \<Rightarrow> (Inl e, s)
            | Inr u \<Rightarrow> if four then collapse4_st r toMerge s else collapse6_st r toMerge s)"

text \<open>
  Every array and every struct that existed in the first store is the same in the second;
  and \<open>frame\<close>: the store has only grown since \<open>s0\<close>.
\<close>

definition unchanged :: "store \<Rightarrow> store \<Rightarrow> bool" where
  "unchanged s s' \<longleftrightarrow>
     (\<forall>p. p < next_free s \<longrightarrow> arrays s' p = arrays s p \<and> structs s' p = structs s p)"

definition frame :: "store \<Rightarrow> store \<Rightarrow> bool" where
  "frame s0 s \<longleftrightarrow> next_free s0 \<le> next_free s \<and> unchanged s0 s"

section \<open>The family guard of Collapse\<close>

declare collapse_loop.simps(2) [simp del]


lemma Collapse_mixed:
  assumes a: "a \<in> set S" "To4 (IP a) \<noteq> None" and b: "b \<in> set S" "To4 (IP b) = None"
  shows "Collapse r S = Inl (Panic ''all versions must be the same'')"
proof (cases S)
  case Nil
  with a show ?thesis by simp
next
  case (Cons h t)
  have "\<exists>x\<in>set t. (To4 (IP h) \<noteq> None) \<noteq> (To4 (IP x) \<noteq> None)"
  proof (cases "To4 (IP h) = None")
    case True
    with a Cons have "a \<in> set t" by auto
    with a True show ?thesis by blast
  next
    case False
    with b Cons have "b \<in> set t" by auto
    with b False show ?thesis by blast
  qed
  with Cons show ?thesis by (simp add: Collapse_def list_ex_iff)
qed

lemma To4_iff: "To4 ip \<noteq> None \<longleftrightarrow> length ip = 4 \<or> ipv4_mapped ip"
  by (simp add: To4_def ipv4_mapped_def)

lemma To4_None_iff: "To4 ip = None \<longleftrightarrow> length ip \<noteq> 4 \<and> \<not> ipv4_mapped ip"
  using To4_iff [of ip] by blast

lemma collapse4_other_panic: "collapse4 r S \<noteq> Inl (Panic ''all versions must be the same'')"
  by (simp add: collapse4_def survivors_def split: list.splits sum.splits)

lemma collapse6_other_panic: "collapse6 r S \<noteq> Inl (Panic ''all versions must be the same'')"
  by (simp add: collapse6_def survivors_def split: list.splits sum.splits)

lemma Collapse_panic_mixed:
  assumes "Collapse r S = Inl (Panic ''all versions must be the same'')"
  shows "(\<exists>a\<in>set S. To4 (IP a) \<noteq> None) \<and> (\<exists>b\<in>set S. To4 (IP b) = None)"
proof (cases S)
  case Nil
  with assms show ?thesis by (simp add: Collapse_def)
next
  case (Cons h t)
  have "list_ex (\<lambda>ipN. (To4 (IP h) \<noteq> None) \<noteq> (To4 (IP ipN) \<noteq> None)) t"
  proof (rule ccontr)
    assume "\<not> list_ex (\<lambda>ipN. (To4 (IP h) \<noteq> None) \<noteq> (To4 (IP ipN) \<noteq> None)) t"
    with Cons have "Collapse r S = (if To4 (IP h) \<noteq> None then collapse4 r S else collapse6 r S)"
      by (simp add: Collapse_def)
    with assms collapse4_other_panic [of r S] collapse6_other_panic [of r S] show False
      by (simp split: if_splits)
  qed
  then obtain x where "x \<in> set t" "(To4 (IP h) \<noteq> None) \<noteq> (To4 (IP x) \<noteq> None)"
    by (auto simp: list_ex_iff)
  with Cons show ?thesis by (cases "To4 (IP h) = None") auto
qed

text \<open>
  Claim C9, as the code has it. An empty input gives the empty output and no error. The
  guard of \<open>Collapse\<close> tells the families apart with \<open>To4\<close>: a network counts as
  IPv4 when its address has 4 bytes or is the 16-byte IPv4-mapped form, and as IPv6
  otherwise. \<open>Collapse\<close> ends in its panic, on every run and with no list of
  networks, exactly when the input holds a network of each kind.
\<close>

theorem Collapse_family_guard:
  "Collapse r [] = Inr [] \<and>
   (Collapse r S = Inl (Panic ''all versions must be the same'') \<longleftrightarrow>
      (\<exists>a\<in>set S. length (IP a) = 4 \<or> ipv4_mapped (IP a))
      \<and> (\<exists>b\<in>set S. length (IP b) \<noteq> 4 \<and> \<not> ipv4_mapped (IP b)))"
proof (rule conjI)
  show "Collapse r [] = Inr []" by (simp add: Collapse_def)
next
  show "Collapse r S = Inl (Panic ''all versions must be the same'') \<longleftrightarrow>
      (\<exists>a\<in>set S. length (IP a) = 4 \<or> ipv4_mapped (IP a))
      \<and> (\<exists>b\<in>set S. length (IP b) \<noteq> 4 \<and> \<not> ipv4_mapped (IP b))"
  proof (rule iffI)
    assume "Collapse r S = Inl (Panic ''all versions must be the same'')"
    from Collapse_panic_mixed [OF this]
    show "(\<exists>a\<in>set S. length (IP a) = 4 \<or> ipv4_mapped (IP a))
        \<and> (\<exists>b\<in>set S. length (IP b) \<noteq> 4 \<and> \<not> ipv4_mapped (IP b))"
      using To4_iff To4_None_iff by blast
  next
    assume "(\<exists>a\<in>set S. length (IP a) = 4 \<or> ipv4_mapped (IP a))
        \<and> (\<exists>b\<in>set S. length (IP b) \<noteq> 4 \<and> \<not> ipv4_mapped (IP b))"
    then obtain a b where "a \<in> set S" "To4 (IP a) \<noteq> None" "b \<in> set S" "To4 (IP b) = None"
      using To4_iff To4_None_iff by blast
    then show "Collapse r S = Inl (Panic ''all versions must be the same'')"
      by (rule Collapse_mixed)
  qed
qed

theorem Collapse_family_guard_witness:
  "Collapse 1 [] = Inr [] \<and>
   Collapse 1 [\<lparr>IP = [10, 0, 0, 0], Mask = [255, 255, 255, 0]\<rparr>,
               \<lparr>IP = [0x20, 1, 0xd, 0xb8, 0, 0, 0, 5, 0, 0, 0, 0, 0, 0, 0, 0],
                 Mask = [255, 255, 255, 255, 255, 255, 255, 255, 0, 0, 0, 0, 0, 0, 0, 0]\<rparr>]
     = Inl (Panic ''all versions must be the same'')"
  using Collapse_family_guard [of 1
      "[\<lparr>IP = [10, 0, 0, 0], Mask = [255, 255, 255, 0]\<rparr>,
        \<lparr>IP = [0x20, 1, 0xd, 0xb8, 0, 0, 0, 5, 0, 0, 0, 0, 0, 0, 0, 0],
          Mask = [255, 255, 255, 255, 255, 255, 255, 255, 0, 0, 0, 0, 0, 0, 0, 0]\<rparr>]"]
  by (simp add: ipv4_mapped_def)

text \<open>
  Claim C9, as the spec states it, fails: a network of 16 address bytes and a mask of
  120 bits out of 128 is an IPv6 network by its byte length, but its address
  \<open>::ffff:10.0.1.0\<close> is IPv4-mapped. Next to the 4-byte network \<open>10.0.0.0/24\<close> it
  passes the guard; no panic is raised, and the prefix length 120 is read as that of an
  IPv4 network.
\<close>

theorem Collapse_accepts_ipv4_mapped:
  "length (IP \<lparr>IP = [10, 0, 0, 0], Mask = [255, 255, 255, 0]\<rparr>) = 4
   \<and> length (IP \<lparr>IP = [0, 0, 0, 0, 0, 0, 0, 0, 0, 0, 0xff, 0xff, 10, 0, 1, 0],
        Mask = [255, 255, 255, 255, 255, 255, 255, 255, 255, 255, 255, 255, 255, 255, 255, 0]\<rparr>) = 16
   \<and> Size [255, 255, 255, 255, 255, 255, 255, 255, 255, 255, 255, 255, 255, 255, 255, 0]
       = (120, 128)
   \<and> Collapse 0 [\<lparr>IP = [10, 0, 0, 0], Mask = [255, 255, 255, 0]\<rparr>,
        \<lparr>IP = [0, 0, 0, 0, 0, 0, 0, 0, 0, 0, 0xff, 0xff, 10, 0, 1, 0],
          Mask = [255, 255, 255, 255, 255, 255, 255, 255, 255, 255, 255, 255, 255, 255, 255, 0]\<rparr>]
     = Inr [\<lparr>IP = [10, 0, 0, 0], Mask = [255, 255, 255, 0]\<rparr>,
            \<lparr>IP = [10, 0, 1, 0], Mask = [0, 0, 0, 0]\<rparr>]
   \<and> Collapse 1 [\<lparr>IP = [10, 0, 0, 0], Mask = [255, 255, 255, 0]\<rparr>,
        \<lparr>IP = [0, 0, 0, 0, 0, 0, 0, 0, 0, 0, 0xff, 0xff, 10, 0, 1, 0],
          Mask = [255, 255, 255, 255, 255, 255, 255, 255, 255, 255, 255, 255, 255, 255, 255, 0]\<rparr>]
     = Inr [\<lparr>IP = [10, 0, 0, 0], Mask = [255, 255, 255, 0]\<rparr>,
            \<lparr>IP = [10, 0, 1, 0], Mask = [0, 0, 0, 0]\<rparr>]"
  by code_simp

section \<open>Supernet and Broadcast on concrete networks\<close>

lemma Supernet_ipv4_example:
  "Supernet \<lparr>IP = [10, 0, 5, 0], Mask = [255, 255, 255, 0]\<rparr> 22
     = Inr \<lparr>IP = [10, 0, 4, 0], Mask = [255, 255, 252, 0]\<rparr>"
  by code_simp

lemma Broadcast_ipv4_example:
  "Broadcast \<lparr>IP = [10, 0, 0, 0], Mask = [255, 255, 255, 0]\<rparr> = [10, 0, 0, 255]"
  by code_simp

text \<open>
  Claim C2. \<open>Supernet\<close> of the IPv6 network \<open>2001:db8:0:5::/64\<close> with the new prefix
  length 62 should be \<open>2001:db8:0:4::/62\<close>. The code returns the mask of length 62
  with the address \<open>2001:db8:0:5::\<close> unchanged: bits 62 and 63 of the address are beyond
  the new prefix and stay set.
\<close>

theorem Supernet_ipv6_keeps_address:
  "Supernet \<lparr>IP = [0x20, 1, 0xd, 0xb8, 0, 0, 0, 5, 0, 0, 0, 0, 0, 0, 0, 0],
              Mask = [255, 255, 255, 255, 255, 255, 255, 255, 0, 0, 0, 0, 0, 0, 0, 0]\<rparr> 62
     = Inr \<lparr>IP = [0x20, 1, 0xd, 0xb8, 0, 0, 0, 5, 0, 0, 0, 0, 0, 0, 0, 0],
            Mask = [255, 255, 255, 255, 255, 255, 255, 252, 0, 0, 0, 0, 0, 0, 0, 0]\<rparr>"
  by code_simp

text \<open>
  Claim C3. \<open>Broadcast\<close> of the IPv6 network \<open>2001:db8:0:5::/64\<close> should be
  \<open>2001:db8:0:5:ffff:ffff:ffff:ffff\<close>. The code returns the address
  \<open>2001:db8:0:5::\<close> as it came in, with no host bit set.
\<close>

theorem Broadcast_ipv6_keeps_address:
  "Broadcast \<lparr>IP = [0x20, 1, 0xd, 0xb8, 0, 0, 0, 5, 0, 0, 0, 0, 0, 0, 0, 0],
               Mask = [255, 255, 255, 255, 255, 255, 255, 255, 0, 0, 0, 0, 0, 0, 0, 0]\<rparr>
     = [0x20, 1, 0xd, 0xb8, 0, 0, 0, 5, 0, 0, 0, 0, 0, 0, 0, 0]"
  by code_simp

section \<open>Masks and parents of typed networks\<close>

lemma hostmask_eq: "push_bit k (1 :: 'a::len word) - 1 = mask k"
  by (simp add: mask_eq_exp_minus_1)

lemma and_not_mask_iff: "a AND NOT (mask k) = a \<longleftrightarrow> take_bit k a = 0"
  for a :: "'a::len word"
  by (auto simp: bit_eq_iff bit_simps)

lemma take_bit_Suc_clear:
  "take_bit k a = 0 \<Longrightarrow> take_bit (Suc k) (a AND NOT (push_bit k 1)) = 0"
  for a :: "'a::len word"
  by (auto simp: bit_eq_iff bit_simps less_Suc_eq)

lemma take_bit_clear_step:
  fixes a :: "'a::len word"
  assumes "take_bit k a = 0" and "k < LENGTH('a) \<Longrightarrow> k' = Suc k"
  shows "take_bit k' (a AND NOT (push_bit k 1)) = 0"
proof (cases "k < LENGTH('a)")
  case True
  with assms show ?thesis by (simp only: take_bit_Suc_clear)
next
  case False
  with assms(1) have "a = 0" by (simp add: take_bit_word_eq_self)
  then show ?thesis by simp
qed

lemma shift4_small:
  assumes "shift4 p < 32"
  shows "1 \<le> unat p \<and> unat p \<le> 32 \<and> shift4 p = 32 - unat p
         \<and> shift4 (p - 1) = Suc (shift4 p)"
  using assms unfolding shift4_def by unat_arith

lemma shift6_eq:
  "shift6 p = (if unat p \<le> 128 then 128 - unat p else 2 ^ 64 + 128 - unat p)"
proof -
  have b: "unat p < 256" using unsigned_less [of p, where 'a = nat] by simp
  then have "unat p < 2 ^ 64" by simp
  then have u: "unat (ucast p :: 64 word) = unat p"
    by (simp only: unsigned_ucast_eq take_bit_nat_eq_self_iff len_bit0 len_num1) simp
  show ?thesis unfolding shift6_def using u b
    by (simp add: unat_sub_if' word_le_nat_alt word_less_nat_alt)
qed

lemma shift6_small:
  assumes "shift6 p < 128"
  shows "1 \<le> unat p \<and> unat p \<le> 128 \<and> shift6 p = 128 - unat p
         \<and> shift6 (p - 1) = Suc (shift6 p)"
proof -
  have b: "unat p < 256" using unsigned_less [of p, where 'a = nat] by simp
  from assms b have p: "1 \<le> unat p \<and> unat p \<le> 128"
    by (auto simp: shift6_eq split: if_splits)
  then have "unat (p - 1) = unat p - 1" by unat_arith
  with p show ?thesis by (simp add: shift6_eq) arith
qed

lemma mask4_eq: "mask4 n = NOT (mask (shift4 (prefix n)))"
  unfolding mask4_def shift4_def hostmask_eq ..

lemma mask6_eq: "mask6 n = NOT (mask (shift6 (prefix n)))"
  unfolding mask6_def shift6_def uint128_Not_def uint128_Minus_def uint128_Lsh_def hostmask_eq ..

lemma masked4_iff: "masked4 n \<longleftrightarrow> take_bit (shift4 (prefix n)) (addr n) = 0"
  unfolding masked4_def mask4_eq and_not_mask_iff ..

lemma masked6_iff: "masked6 n \<longleftrightarrow> take_bit (shift6 (prefix n)) (addr n) = 0"
  unfolding masked6_def uint128_And_def mask6_eq and_not_mask_iff ..

lemma addr_super4: "addr (super4 n) = addr n AND NOT (push_bit (shift4 (prefix n)) 1)"
  by (simp add: super4_def shift4_def)

lemma addr_super6: "addr (super6 n) = addr n AND NOT (push_bit (shift6 (prefix n)) 1)"
  by (simp add: super6_def shift6_def uint128_And_def uint128_Not_def uint128_Lsh_def)

lemma prefix_super4: "prefix (super4 n) = prefix n - 1"
  by (simp add: super4_def)

lemma prefix_super6: "prefix (super6 n) = prefix n - 1"
  by (simp add: super6_def)

lemma super4_masked: "masked4 n \<Longrightarrow> masked4 (super4 n)"
  unfolding masked4_iff addr_super4 prefix_super4
  by (rule take_bit_clear_step) (use shift4_small in auto)

lemma super6_masked: "masked6 n \<Longrightarrow> masked6 (super6 n)"
  unfolding masked6_iff addr_super6 prefix_super6
  by (rule take_bit_clear_step) (use shift6_small in auto)



lemma bit_addr_super4:
  assumes "1 \<le> unat (prefix n)" "unat (prefix n) \<le> 32"
  shows "bit (addr (super4 n)) i \<longleftrightarrow> bit (addr n) i \<and> i \<noteq> 32 - unat (prefix n)"
proof -
  from assms have "shift4 (prefix n) = 32 - unat (prefix n)"
    unfolding shift4_def by unat_arith
  moreover from assms have "32 - unat (prefix n) < 32" by simp
  ultimately show ?thesis
    by (auto simp: addr_super4 bit_simps dest: bit_imp_le_length)
qed

lemma bit_addr_super6:
  assumes "1 \<le> unat (prefix n)" "unat (prefix n) \<le> 128"
  shows "bit (addr (super6 n)) i \<longleftrightarrow> bit (addr n) i \<and> i \<noteq> 128 - unat (prefix n)"
proof -
  from assms have "shift6 (prefix n) = 128 - unat (prefix n)"
    by (simp add: shift6_eq)
  moreover from assms have "128 - unat (prefix n) < 128" by simp
  ultimately show ?thesis
    by (auto simp: addr_super6 bit_simps dest: bit_imp_le_length)
qed

text \<open>
  Claim C4, as the code has it. For a prefix length from 1 to the bit width, \<open>super\<close>
  clears the one address bit at position bit width minus prefix length and decrements the
  prefix length. So the parent of a masked network is masked to the new prefix length;
  host bits that the address of \<open>n\<close> carries are still set in the parent.
\<close>

theorem super_clears_one_bit:
  "(1 \<le> unat (prefix n) \<and> unat (prefix n) \<le> 32 \<longrightarrow>
      prefix (super4 n) = prefix n - 1
      \<and> (\<forall>i. bit (addr (super4 n)) i \<longleftrightarrow> bit (addr n) i \<and> i \<noteq> 32 - unat (prefix n))
      \<and> (masked4 n \<longrightarrow> masked4 (super4 n)))
   \<and> (1 \<le> unat (prefix m) \<and> unat (prefix m) \<le> 128 \<longrightarrow>
      prefix (super6 m) = prefix m - 1
      \<and> (\<forall>i. bit (addr (super6 m)) i \<longleftrightarrow> bit (addr m) i \<and> i \<noteq> 128 - unat (prefix m))
      \<and> (masked6 m \<longrightarrow> masked6 (super6 m)))"
  by (simp add: prefix_super4 prefix_super6 bit_addr_super4 bit_addr_super6
      super4_masked super6_masked)

theorem super_clears_one_bit_witness:
  "masked4 \<lparr>addr = 0x0A000100, prefix = 24\<rparr>
   \<and> masked4 (super4 \<lparr>addr = 0x0A000100, prefix = 24\<rparr>)
   \<and> masked6 \<lparr>addr = 0x20010DB8000000050000000000000000, prefix = 64\<rparr>
   \<and> masked6 (super6 \<lparr>addr = 0x20010DB8000000050000000000000000, prefix = 64\<rparr>)"
proof -
  have h4: "1 \<le> unat (prefix \<lparr>addr = 0x0A000100 :: uint32, prefix = 24\<rparr>)
      \<and> unat (prefix \<lparr>addr = 0x0A000100 :: uint32, prefix = 24\<rparr>) \<le> 32"
    by simp
  have m4: "masked4 \<lparr>addr = 0x0A000100, prefix = 24\<rparr>" by code_simp
  have h6: "1 \<le> unat (prefix \<lparr>addr = 0x20010DB8000000050000000000000000 :: uint128, prefix = 64\<rparr>)
      \<and> unat (prefix \<lparr>addr = 0x20010DB8000000050000000000000000 :: uint128, prefix = 64\<rparr>) \<le> 128"
    by simp
  have m6: "masked6 \<lparr>addr = 0x20010DB8000000050000000000000000, prefix = 64\<rparr>" by code_simp
  from super_clears_one_bit [of "\<lparr>addr = 0x0A000100, prefix = 24\<rparr>"
      "\<lparr>addr = 0x20010DB8000000050000000000000000, prefix = 64\<rparr>"] h4 m4 h6 m6
  show ?thesis by blast
qed

text \<open>
  Claim C4, as the spec states it, fails: the leaf \<open>10.0.0.5/24\<close> has host bits set, and
  its parent \<open>10.0.0.5/23\<close> still has them, so the parent is not masked to its prefix
  length 23.
\<close>

theorem super4_keeps_host_bits:
  "1 \<le> unat (prefix \<lparr>addr = 0x0A000005 :: uint32, prefix = 24\<rparr>)
   \<and> super4 \<lparr>addr = 0x0A000005, prefix = 24\<rparr> = \<lparr>addr = 0x0A000005, prefix = 23\<rparr>
   \<and> \<not> masked4 (super4 \<lparr>addr = 0x0A000005, prefix = 24\<rparr>)"
  by code_simp

section \<open>The loop of the collapse engine\<close>






















section \<open>Networks of prefix length 0 in the loop\<close>







section \<open>Parents of the networks in the output\<close>





section \<open>Networks with the same address in the final pass\<close>

text \<open>
  Claim C6. The input \<open>10.0.0.0/8, 10.0.0.0/16\<close> leaves two entries with the same
  address in \<open>supers\<close>. \<open>Less\<close> compares addresses only, so the sort keeps them in
  the order in which the map was visited, and the final pass keeps the first and drops the
  second. Two runs on this input give two different results.
\<close>

theorem Collapse_depends_on_map_order:
  "Collapse 0 [\<lparr>IP = [10, 0, 0, 0], Mask = [255, 0, 0, 0]\<rparr>,
               \<lparr>IP = [10, 0, 0, 0], Mask = [255, 255, 0, 0]\<rparr>]
     = Inr [\<lparr>IP = [10, 0, 0, 0], Mask = [255, 255, 0, 0]\<rparr>]
   \<and> Collapse 1 [\<lparr>IP = [10, 0, 0, 0], Mask = [255, 0, 0, 0]\<rparr>,
                 \<lparr>IP = [10, 0, 0, 0], Mask = [255, 255, 0, 0]\<rparr>]
     = Inr [\<lparr>IP = [10, 0, 0, 0], Mask = [255, 0, 0, 0]\<rparr>]"
  by code_simp

text \<open>
  Claim C1. On the same input the run that visits \<open>10.0.0.0/16\<close> first returns
  \<open>10.0.0.0/16\<close> alone. The address \<open>10.1.0.0\<close> lies in the input network
  \<open>10.0.0.0/8\<close> and in no network of the output.
\<close>

theorem Collapse_loses_coverage:
  "Collapse 0 [\<lparr>IP = [10, 0, 0, 0], Mask = [255, 0, 0, 0]\<rparr>,
               \<lparr>IP = [10, 0, 0, 0], Mask = [255, 255, 0, 0]\<rparr>]
     = Inr [\<lparr>IP = [10, 0, 0, 0], Mask = [255, 255, 0, 0]\<rparr>]
   \<and> covers4 (newIP4Net \<lparr>IP = [10, 0, 0, 0], Mask = [255, 0, 0, 0]\<rparr>) 0x0A010000
   \<and> \<not> covers4 (newIP4Net \<lparr>IP = [10, 0, 0, 0], Mask = [255, 255, 0, 0]\<rparr>) 0x0A010000"
  by code_simp

text \<open>
  With a host bit in the address of the larger network the loss does not depend on the
  map order: the network \<open>10.0.0.5/8\<close> sorts after \<open>10.0.0.0/16\<close> and is dropped.
\<close>

lemma Collapse_loses_coverage_host_bits:
  "Collapse 0 [\<lparr>IP = [10, 0, 0, 5], Mask = [255, 0, 0, 0]\<rparr>,
               \<lparr>IP = [10, 0, 0, 0], Mask = [255, 255, 0, 0]\<rparr>]
     = Inr [\<lparr>IP = [10, 0, 0, 0], Mask = [255, 255, 0, 0]\<rparr>]
   \<and> Collapse 1 [\<lparr>IP = [10, 0, 0, 5], Mask = [255, 0, 0, 0]\<rparr>,
                 \<lparr>IP = [10, 0, 0, 0], Mask = [255, 255, 0, 0]\<rparr>]
     = Inr [\<lparr>IP = [10, 0, 0, 0], Mask = [255, 255, 0, 0]\<rparr>]
   \<and> covers4 (newIP4Net \<lparr>IP = [10, 0, 0, 5], Mask = [255, 0, 0, 0]\<rparr>) 0x0A010000
   \<and> \<not> covers4 (newIP4Net \<lparr>IP = [10, 0, 0, 0], Mask = [255, 255, 0, 0]\<rparr>) 0x0A010000"
  by code_simp

section \<open>Rendering a typed network and reading it back\<close>





declare leading_ones.simps [simp del]



















section \<open>Running Collapse on its own result\<close>













lemma sibling_addr:
  fixes a b :: "'a::len word"
  assumes eq: "a AND NOT (push_bit k 1) = b AND NOT (push_bit k 1)" and ne: "a \<noteq> b"
  shows "a AND NOT (push_bit k 1) = a \<or> b AND NOT (push_bit k 1) = b"
proof (cases "bit a k")
  case False
  then have "a AND NOT (push_bit k 1) = a"
    by (intro bit_eqI) (auto simp: bit_simps)
  then show ?thesis ..
next
  case True
  have other: "bit a i \<longleftrightarrow> bit b i" if "i \<noteq> k" for i
  proof -
    from eq have "bit (a AND NOT (push_bit k 1)) i \<longleftrightarrow> bit (b AND NOT (push_bit k 1)) i"
      by simp
    with that show ?thesis by (auto simp: bit_simps dest: bit_imp_le_length)
  qed
  have "\<not> bit b k"
  proof
    assume "bit b k"
    with True other have "a = b" by (intro bit_eqI) metis
    with ne show False by simp
  qed
  then have "b AND NOT (push_bit k 1) = b"
    by (intro bit_eqI) (auto simp: bit_simps)
  then show ?thesis ..
qed

lemma super4_eq_prefix: "super4 n = super4 m \<Longrightarrow> prefix n = prefix m"
proof -
  assume "super4 n = super4 m"
  then have "prefix n - 1 = prefix m - 1" by (metis prefix_super4)
  then show ?thesis by simp
qed


lemma super4_addr_cases:
  assumes "super4 n = super4 m" "n \<noteq> m"
  shows "addr (super4 n) = addr n \<or> addr (super4 n) = addr m"
proof -
  from assms(1) have p: "prefix n = prefix m" by (rule super4_eq_prefix)
  with assms(2) have ne: "addr n \<noteq> addr m" by (cases n, cases m) auto
  have en: "addr (super4 n) = addr n AND NOT (push_bit (shift4 (prefix n)) 1)"
    by (rule addr_super4)
  from assms(1) have "addr (super4 n) = addr (super4 m)" by simp
  then have em: "addr (super4 n) = addr m AND NOT (push_bit (shift4 (prefix n)) 1)"
    by (simp only: addr_super4 p)
  from en em have "addr n AND NOT (push_bit (shift4 (prefix n)) 1)
      = addr m AND NOT (push_bit (shift4 (prefix n)) 1)" by simp
  from sibling_addr [OF this ne] en em show ?thesis by metis
qed




















section \<open>The caller's networks after a call\<close>

lemma frame_refl: "frame s s"
  by (simp add: frame_def unchanged_def)

lemma frame_new_bytes: "frame s0 s \<Longrightarrow> new_bytes bs s = (p, s') \<Longrightarrow> frame s0 s' \<and> next_free s0 \<le> p"
  by (auto simp: frame_def unchanged_def new_bytes_def)

lemma frame_make_bytes: "frame s0 s \<Longrightarrow> make_bytes n s = (p, s') \<Longrightarrow> frame s0 s' \<and> next_free s0 \<le> p"
  unfolding make_bytes_def by (rule frame_new_bytes)

lemma frame_new_IPNet: "frame s0 s \<Longrightarrow> new_IPNet r s = (p, s') \<Longrightarrow> frame s0 s' \<and> next_free s0 \<le> p"
  by (auto simp: frame_def unchanged_def new_IPNet_def)

lemma frame_write_bytes: "frame s0 s \<Longrightarrow> next_free s0 \<le> p \<Longrightarrow> frame s0 (write_bytes p bs s)"
  by (auto simp: frame_def unchanged_def write_bytes_def)

lemma frame_Broadcast_st: "frame s (snd (Broadcast_st a s))"
proof (cases "deref s a")
  case None
  then show ?thesis by (simp add: Broadcast_st_def frame_refl)
next
  case (Some v)
  obtain out s1 where mk: "make_bytes (length (IP v)) s = (out, s1)" by fastforce
  from frame_make_bytes [OF frame_refl mk] have f1: "frame s s1" and o: "next_free s \<le> out"
    by simp_all
  obtain ones bits where sz: "Size (Mask v) = (ones, bits)" by fastforce
  from f1 o show ?thesis
    by (simp add: Broadcast_st_def Some mk sz Let_def frame_write_bytes)
qed

lemma frame_Supernet_st: "frame s (snd (Supernet_st ipN newPrefix s))"
proof (cases "deref s ipN")
  case None
  then show ?thesis by (simp add: Supernet_st_def frame_refl)
next
  case (Some v)
  obtain ones bits where sz: "Size (Mask v) = (ones, bits)" by fastforce
  obtain oi s1 where mk: "make_bytes (length (IP v)) s = (oi, s1)" by fastforce
  obtain om s2 where nb: "new_bytes (CIDRMask newPrefix bits) s1 = (om, s2)" by fastforce
  from frame_make_bytes [OF frame_refl mk] have f1: "frame s s1" and o: "next_free s \<le> oi"
    by simp_all
  from frame_new_bytes [OF f1 nb] have f2: "frame s s2" by simp
  have w: "frame s (write_bytes oi bs s2)" for bs using f2 o by (rule frame_write_bytes)
  have "frame s (snd (new_IPNet r (write_bytes oi bs s2)))" for r bs
    using frame_new_IPNet [OF w] by (metis prod.collapse)
  then show ?thesis
    by (simp add: Supernet_st_def Some sz mk nb Let_def frame_refl case_prod_unfold)
qed

lemma frame_asNet4_st: "frame s0 s \<Longrightarrow> frame s0 (snd (asNet4_st n s))"
proof -
  assume f: "frame s0 s"
  obtain ip s1 where a: "make_bytes 4 s = (ip, s1)" by fastforce
  obtain m s2 where b: "make_bytes 4 s1 = (m, s2)" by fastforce
  from frame_make_bytes [OF f a] have f1: "frame s0 s1" and i: "next_free s0 \<le> ip" by simp_all
  from frame_make_bytes [OF f1 b] have f2: "frame s0 s2" and j: "next_free s0 \<le> m" by simp_all
  have "frame s0 (write_bytes m bs' (write_bytes ip bs s2))" for bs bs'
    using f2 i j by (simp add: frame_write_bytes)
  then have "frame s0 (snd (new_IPNet r (write_bytes m bs' (write_bytes ip bs s2))))" for r bs bs'
    using frame_new_IPNet by (metis prod.collapse)
  then show ?thesis by (simp add: asNet4_st_def a b Let_def)
qed

lemma frame_asNet6_st: "frame s0 s \<Longrightarrow> frame s0 (snd (asNet6_st n s))"
proof -
  assume f: "frame s0 s"
  obtain ip s1 where a: "make_bytes 16 s = (ip, s1)" by fastforce
  obtain m s2 where b: "make_bytes 16 s1 = (m, s2)" by fastforce
  from frame_make_bytes [OF f a] have f1: "frame s0 s1" and i: "next_free s0 \<le> ip" by simp_all
  from frame_make_bytes [OF f1 b] have f2: "frame s0 s2" and j: "next_free s0 \<le> m" by simp_all
  have "frame s0 (write_bytes m bs' (write_bytes ip bs s2))" for bs bs'
    using f2 i j by (simp add: frame_write_bytes)
  then have "frame s0 (snd (new_IPNet r (write_bytes m bs' (write_bytes ip bs s2))))" for r bs bs'
    using frame_new_IPNet by (metis prod.collapse)
  then show ?thesis by (simp add: asNet6_st_def a b Let_def)
qed

lemma frame_render_all:
  assumes "\<And>n s. frame s0 s \<Longrightarrow> frame s0 (snd (render n s))"
  shows "frame s0 s \<Longrightarrow> frame s0 (snd (render_all render ns s))"
proof (induction ns arbitrary: s)
  case Nil
  then show ?case by simp
next
  case (Cons n ns)
  from assms [OF Cons.prems, of n] have "frame s0 (snd (render n s))" .
  from Cons.IH [OF this] show ?case by (simp add: case_prod_unfold)
qed

lemma frame_collapse4_st: "frame s (snd (collapse4_st r toMerge s))"
  using frame_render_all [of s asNet4_st, OF frame_asNet4_st frame_refl]
  by (simp add: collapse4_st_def frame_refl case_prod_unfold split: sum.splits)

lemma frame_collapse6_st: "frame s (snd (collapse6_st r toMerge s))"
  using frame_render_all [of s asNet6_st, OF frame_asNet6_st frame_refl]
  by (simp add: collapse6_st_def frame_refl case_prod_unfold split: sum.splits)

lemma frame_Collapse_st: "frame s (snd (Collapse_st r toMerge s))"
  by (simp add: Collapse_st_def Let_def frame_refl frame_collapse4_st frame_collapse6_st
      split: option.splits sum.splits)

lemma unchanged_deref:
  assumes "wf_store s" "unchanged s s'" "deref s p = Some v"
  shows "deref s' p = Some v"
proof -
  from assms(3) obtain r where r: "structs s p = Some r" 
    by (auto simp: deref_def split: option.splits)
  with assms(3) have a: "arrays s (IP_ref r) = Some (IP v)" "arrays s (Mask_ref r) = Some (Mask v)"
    by (auto simp: deref_def split: option.splits)
  from r a assms(1) have "p < next_free s" "IP_ref r < next_free s" "Mask_ref r < next_free s"
    unfolding wf_store_def by (metis not_le option.distinct(1))+
  with assms(2) r a have "structs s' p = Some r" "arrays s' (IP_ref r) = Some (IP v)"
    "arrays s' (Mask_ref r) = Some (Mask v)"
    by (simp_all add: unchanged_def)
  then show ?thesis by (simp add: deref_def)
qed

lemma frame_trans: "frame a b \<Longrightarrow> frame b c \<Longrightarrow> frame a c"
  by (auto simp: frame_def unchanged_def)

lemma copy_bytes_fresh: "copy_bytes (replicate (length src) 0) src = src"
  by (simp add: copy_bytes_def)

lemma Broadcast_st_result:
  assumes "deref s a = Some v"
  shows "\<exists>out s'. Broadcast_st a s = (Inr out, s') \<and> arrays s' out = Some (Broadcast v)"
proof -
  obtain ones bits where sz: "Size (Mask v) = (ones, bits)" by fastforce
  show ?thesis
    by (simp add: Broadcast_st_def Broadcast_def assms sz make_bytes_def new_bytes_def
        write_bytes_def read_bytes_def copy_bytes_fresh Let_def)
qed

lemma deref_fields:
  "structs s p = Some r \<Longrightarrow> arrays s (IP_ref r) = Some i \<Longrightarrow> arrays s (Mask_ref r) = Some m
    \<Longrightarrow> deref s p = Some \<lparr>IP = i, Mask = m\<rparr>"
  by (simp add: deref_def)

lemma Supernet_st_result:
  assumes "deref s ipN = Some v" and "wf_store s"
  shows "case Supernet v newPrefix of
           Inl e \<Rightarrow> Supernet_st ipN newPrefix s = (Inl e, s)
         | Inr w \<Rightarrow> (\<exists>p s'. Supernet_st ipN newPrefix s = (Inr p, s') \<and> deref s' p = Some w)"
proof -
  obtain ones bits where sz: "Size (Mask v) = (ones, bits)" by fastforce
  show ?thesis
    by (auto simp: Supernet_st_def Supernet_def assms(1) sz make_bytes_def new_bytes_def
        write_bytes_def read_bytes_def new_IPNet_def Let_def intro!: deref_fields)
qed

lemma asNet4_st_result:
  assumes "wf_store s" and "asNet4_st n s = (p, s')"
  shows "wf_store s' \<and> deref s' p = Some (asNet4 n)"
  using assms
  by (auto simp: asNet4_st_def asNet4_def make_bytes_def new_bytes_def write_bytes_def
      read_bytes_def new_IPNet_def deref_def wf_store_def Let_def)

lemma asNet6_st_result:
  assumes "wf_store s" and "asNet6_st n s = (p, s')"
  shows "wf_store s' \<and> deref s' p = Some (asNet6 n)"
  using assms
  by (auto simp: asNet6_st_def asNet6_def make_bytes_def new_bytes_def write_bytes_def
      read_bytes_def new_IPNet_def deref_def wf_store_def Let_def)

lemma unchanged_load_all:
  "wf_store s \<Longrightarrow> unchanged s s' \<Longrightarrow> load_all s ps = Inr vs \<Longrightarrow> load_all s' ps = Inr vs"
proof (induction ps arbitrary: vs)
  case Nil
  then show ?case by simp
next
  case (Cons p ps)
  from Cons.prems(3) obtain v vs' where v: "deref s p = Some v" and l: "load_all s ps = Inr vs'"
    and vs: "vs = v # vs'"
    by (auto split: option.splits sum.splits)
  from unchanged_deref [OF Cons.prems(1,2) v] Cons.IH [OF Cons.prems(1,2) l] vs
  show ?case by simp
qed

lemma render_all_result:
  assumes r: "\<And>n s p s'. wf_store s \<Longrightarrow> render n s = (p, s')
      \<Longrightarrow> wf_store s' \<and> deref s' p = Some (pure n)"
    and f: "\<And>n s0 s. frame s0 s \<Longrightarrow> frame s0 (snd (render n s))"
  shows "wf_store s \<Longrightarrow> render_all render ns s = (ps, s')
      \<Longrightarrow> wf_store s' \<and> load_all s' ps = Inr (map pure ns)"
proof (induction ns arbitrary: s ps s')
  case Nil
  then show ?case by auto
next
  case (Cons n ns)
  obtain p s1 where a: "render n s = (p, s1)" by fastforce
  obtain ps1 s2 where b: "render_all render ns s1 = (ps1, s2)" by fastforce
  from Cons.prems(2) a b have ps: "ps = p # ps1" and s': "s' = s2" by simp_all
  from r [OF Cons.prems(1) a] have w1: "wf_store s1" and d: "deref s1 p = Some (pure n)"
    by simp_all
  from Cons.IH [OF w1 b] have w2: "wf_store s2" and l: "load_all s2 ps1 = Inr (map pure ns)"
    by simp_all
  from frame_render_all [of s1 render, OF f frame_refl, of ns] b have "unchanged s1 s2"
    by (simp add: frame_def)
  from unchanged_deref [OF w1 this d] have "deref s2 p = Some (pure n)" .
  with w2 l ps s' show ?case by simp
qed

lemma same_family_load:
  "load_all s ps = Inr vs \<Longrightarrow>
   same_family s four ps
     = (if list_ex (\<lambda>ipN. four \<noteq> (To4 (IP ipN) \<noteq> None)) vs
        then Inl (Panic ''all versions must be the same'') else Inr ())"
proof (induction ps arbitrary: vs)
  case Nil
  then show ?case by simp
next
  case (Cons p ps)
  from Cons.prems obtain v vs' where v: "deref s p = Some v" and l: "load_all s ps = Inr vs'"
    and vs: "vs = v # vs'"
    by (auto split: option.splits sum.splits)
  from Cons.IH [OF l] v vs show ?case
    by (cases four; cases "To4 (IP v)") simp_all
qed

lemma collapse4_st_result:
  assumes "load_all s ps = Inr vs" and "wf_store s"
  shows "case collapse4 r vs of
           Inl e \<Rightarrow> collapse4_st r ps s = (Inl e, s)
         | Inr R \<Rightarrow> (\<exists>ps' s'. collapse4_st r ps s = (Inr ps', s') \<and> load_all s' ps' = Inr R)"
proof (cases "survivors mask4 (merged4 r (map newIP4Net vs))")
  case (Inl e)
  with assms show ?thesis by (simp add: collapse4_def collapse4_st_def)
next
  case (Inr ns)
  obtain ps' s' where a: "render_all asNet4_st ns s = (ps', s')" by fastforce
  from render_all_result [of asNet4_st asNet4, OF asNet4_st_result frame_asNet4_st assms(2) a]
  have "load_all s' ps' = Inr (map asNet4 ns)" by simp
  with Inr a assms show ?thesis by (simp add: collapse4_def collapse4_st_def)
qed

lemma collapse6_st_result:
  assumes "load_all s ps = Inr vs" and "wf_store s"
  shows "case collapse6 r vs of
           Inl e \<Rightarrow> collapse6_st r ps s = (Inl e, s)
         | Inr R \<Rightarrow> (\<exists>ps' s'. collapse6_st r ps s = (Inr ps', s') \<and> load_all s' ps' = Inr R)"
proof (cases "survivors mask6 (merged6 r (map newIP6Net vs))")
  case (Inl e)
  with assms show ?thesis by (simp add: collapse6_def collapse6_st_def)
next
  case (Inr ns)
  obtain ps' s' where a: "render_all asNet6_st ns s = (ps', s')" by fastforce
  from render_all_result [of asNet6_st asNet6, OF asNet6_st_result frame_asNet6_st assms(2) a]
  have "load_all s' ps' = Inr (map asNet6 ns)" by simp
  with Inr a assms show ?thesis by (simp add: collapse6_def collapse6_st_def)
qed

lemma Collapse_st_result:
  assumes l: "load_all s ps = Inr vs" and w: "wf_store s"
  shows "case Collapse r vs of
           Inl e \<Rightarrow> Collapse_st r ps s = (Inl e, s)
         | Inr R \<Rightarrow> (\<exists>ps' s'. Collapse_st r ps s = (Inr ps', s') \<and> load_all s' ps' = Inr R)"
proof (cases ps)
  case Nil
  with l show ?thesis by (simp add: Collapse_def Collapse_st_def)
next
  case (Cons p ps1)
  with l obtain v vs1 where v: "deref s p = Some v" and l1: "load_all s ps1 = Inr vs1"
    and vs: "vs = v # vs1"
    by (auto split: option.splits sum.splits)
  show ?thesis
  proof (cases "list_ex (\<lambda>ipN. (To4 (IP v) \<noteq> None) \<noteq> (To4 (IP ipN) \<noteq> None)) vs1")
    case True
    with same_family_load [OF l1, of "To4 (IP v) \<noteq> None"] v vs Cons show ?thesis
      by (simp add: Collapse_def Collapse_st_def)
  next
    case False
    with same_family_load [OF l1, of "To4 (IP v) \<noteq> None"] 
    have sf: "same_family s (To4 (IP v) \<noteq> None) ps1 = Inr ()" by simp
    show ?thesis
    proof (cases "To4 (IP v) \<noteq> None")
      case True
      with False v vs Cons sf have "Collapse_st r ps s = collapse4_st r ps s"
        and "Collapse r vs = collapse4 r vs"
        by (simp_all add: Collapse_def Collapse_st_def)
      with collapse4_st_result [OF l w, of r] show ?thesis by (simp only:)
    next
      case f: False
      with False v vs Cons sf have "Collapse_st r ps s = collapse6_st r ps s"
        and "Collapse r vs = collapse6 r vs"
        by (simp_all add: Collapse_def Collapse_st_def)
      with collapse6_st_result [OF l w, of r] show ?thesis by (simp only:)
    qed
  qed
qed

text \<open>
  Claim C10. In a well-formed store, a call of \<open>Broadcast\<close>, \<open>Supernet\<close> or
  \<open>Collapse\<close> leaves every array and every struct that existed before the call as it
  was: each of them writes only into what it has allocated itself. So every network
  \<open>v\<close> that a pointer \<open>p\<close> led to before the call is still what \<open>p\<close> leads to
  after it, with the same address bytes and the same mask bytes.
\<close>

theorem inputs_not_mutated:
  assumes "wf_store s"
  shows "unchanged s (snd (Broadcast_st a s))
     \<and> unchanged s (snd (Supernet_st ipN newPrefix s))
     \<and> unchanged s (snd (Collapse_st r toMerge s))
     \<and> (deref s p = Some v \<longrightarrow>
          deref (snd (Broadcast_st a s)) p = Some v
          \<and> deref (snd (Supernet_st ipN newPrefix s)) p = Some v
          \<and> deref (snd (Collapse_st r toMerge s)) p = Some v)"
proof -
  have b: "unchanged s (snd (Broadcast_st a s))"
    using frame_Broadcast_st [of s a] by (simp add: frame_def)
  have n: "unchanged s (snd (Supernet_st ipN newPrefix s))"
    using frame_Supernet_st [of s ipN newPrefix] by (simp add: frame_def)
  have c: "unchanged s (snd (Collapse_st r toMerge s))"
    using frame_Collapse_st [of s r toMerge] by (simp add: frame_def)
  from b n c unchanged_deref [OF assms] show ?thesis by blast
qed

theorem inputs_not_mutated_witness:
  "(let s0 = \<lparr>arrays = [0 \<mapsto> [10, 0, 0, 0], 1 \<mapsto> [255, 255, 255, 0],
                          3 \<mapsto> [10, 0, 1, 0], 4 \<mapsto> [255, 255, 255, 0]],
               structs = [2 \<mapsto> \<lparr>IP_ref = 0, Mask_ref = 1\<rparr>, 5 \<mapsto> \<lparr>IP_ref = 3, Mask_ref = 4\<rparr>],
               next_free = 6\<rparr>;
        v = \<lparr>IP = [10, 0, 0, 0], Mask = [255, 255, 255, 0]\<rparr>
    in wf_store s0 \<and> deref s0 2 = Some v
       \<and> deref (snd (Broadcast_st 2 s0)) 2 = Some v
       \<and> deref (snd (Supernet_st 2 22 s0)) 2 = Some v
       \<and> deref (snd (Collapse_st 1 [2, 5] s0)) 2 = Some v)"
proof -
  let ?s0 = "\<lparr>arrays = [0 \<mapsto> [10, 0, 0, 0], 1 \<mapsto> [255, 255, 255, 0],
                          3 \<mapsto> [10, 0, 1, 0], 4 \<mapsto> [255, 255, 255, 0 :: byte]],
               structs = [2 \<mapsto> \<lparr>IP_ref = 0, Mask_ref = 1\<rparr>, 5 \<mapsto> \<lparr>IP_ref = 3, Mask_ref = 4\<rparr>],
               next_free = 6\<rparr>"
  let ?v = "\<lparr>IP = [10, 0, 0, 0], Mask = [255, 255, 255, 0]\<rparr>"
  have w: "wf_store ?s0" by (simp add: wf_store_def)
  have d: "deref ?s0 2 = Some ?v" by (simp add: deref_def)
  from inputs_not_mutated [OF w, of 2 2 22 1 "[2, 5]" 2 ?v] d w
  show ?thesis by (simp add: Let_def)
qed

end
